theory Spec2Isabelle
  imports Main "HOL-Library.Sublist"
begin

section \<open>Source generator helpers: \<open>normalize_indent\<close> and \<open>get_preamble\<close>\<close>

text \<open>
  The module \<^verbatim>\<open>interfaces/sourcegen/sourcegen/_helpers.py\<close> has two functions:

  \<^verbatim>\<open>
  def normalize_indent(code: str) -> str:
      code = textwrap.dedent(code).strip()
      indent = 0
      call_line = inspect.stack()[1].code_context[0]
      indent = len(call_line) - len(call_line.lstrip())
      if call_line[indent] == '{':
          code = textwrap.indent(code, ' ' * indent)
          code = code[indent:]
      return code

  def get_preamble() -> str:
      return Path(__file__).parent.joinpath("preamble.txt").read_text()
  \<close>

  Both lean on the Python standard library (\<^verbatim>\<open>str.strip\<close>, \<^verbatim>\<open>str.lstrip\<close>,
  \<^verbatim>\<open>textwrap.dedent\<close>, \<^verbatim>\<open>textwrap.indent\<close>, \<^verbatim>\<open>pathlib\<close>), which is embedded
  first, following CPython.
\<close>

subsection \<open>Python strings\<close>

text \<open>
  A Python \<^verbatim>\<open>str\<close> is a sequence of Unicode code points and \<^verbatim>\<open>len\<close> counts code
  points, so a string is a list of code points here. A literal is written
  \<open>str ''...''\<close>.
\<close>

type_synonym pystr = "nat list"

definition str :: "string \<Rightarrow> pystr" where
  "str s = map of_char s"

abbreviation LF :: nat where "LF \<equiv> 10"
abbreviation CR :: nat where "CR \<equiv> 13"
abbreviation TAB :: nat where "TAB \<equiv> 9"
abbreviation SPACE :: nat where "SPACE \<equiv> 32"
abbreviation LBRACE :: nat where "LBRACE \<equiv> 123"

text \<open>
  \<^verbatim>\<open>str.isspace\<close> on one character: the code points CPython lists as whitespace
  (\<^verbatim>\<open>_PyUnicode_IsWhitespace\<close>).
\<close>

definition isspace :: "nat \<Rightarrow> bool" where
  "isspace c \<longleftrightarrow>
     (9 \<le> c \<and> c \<le> 13) \<or> (28 \<le> c \<and> c \<le> 32) \<or> c = 133 \<or> c = 160 \<or> c = 5760 \<or>
     (8192 \<le> c \<and> c \<le> 8202) \<or> c = 8232 \<or> c = 8233 \<or> c = 8239 \<or> c = 8287 \<or> c = 12288"

text \<open>
  The line boundaries of \<^verbatim>\<open>str.splitlines\<close> (\<^verbatim>\<open>_PyUnicode_IsLinebreak\<close>).
\<close>

definition is_linebreak :: "nat \<Rightarrow> bool" where
  "is_linebreak c \<longleftrightarrow>
     (10 \<le> c \<and> c \<le> 13) \<or> (28 \<le> c \<and> c \<le> 30) \<or> c = 133 \<or> c = 8232 \<or> c = 8233"

definition lstrip :: "pystr \<Rightarrow> pystr" where
  "lstrip s = dropWhile isspace s"

definition rstrip :: "pystr \<Rightarrow> pystr" where
  "rstrip s = rev (dropWhile isspace (rev s))"

text \<open>\<^verbatim>\<open>str.strip()\<close> skips whitespace from the left, then from the right.\<close>

definition strip :: "pystr \<Rightarrow> pystr" where
  "strip s = rstrip (lstrip s)"

text \<open>\<^verbatim>\<open>text.split('\n')\<close> and \<^verbatim>\<open>'\n'.join(lines)\<close>.\<close>

fun split_nl :: "pystr \<Rightarrow> pystr list" where
  "split_nl [] = [[]]"
| "split_nl (c # cs) =
     (if c = LF then [] # split_nl cs
      else (case split_nl cs of [] \<Rightarrow> [[c]] | l # ls \<Rightarrow> (c # l) # ls))"

fun join_nl :: "pystr list \<Rightarrow> pystr" where
  "join_nl [] = []"
| "join_nl [l] = l"
| "join_nl (l # m # ls) = l @ LF # join_nl (m # ls)"

text \<open>
  \<^verbatim>\<open>text.splitlines(True)\<close>: the lines with their line endings kept; \<^verbatim>\<open>\r\n\<close> is one
  line ending, and there is no empty last line.
\<close>

fun splitlines_keepends :: "pystr \<Rightarrow> pystr list" where
  "splitlines_keepends [] = []"
| "splitlines_keepends [c] = [[c]]"
| "splitlines_keepends (c # d # cs) =
     (if c = CR \<and> d = LF then [c, d] # splitlines_keepends cs
      else if is_linebreak c then [c] # splitlines_keepends (d # cs)
      else (case splitlines_keepends (d # cs) of [] \<Rightarrow> [[c]] | l # ls \<Rightarrow> (c # l) # ls))"

subsection \<open>\<^verbatim>\<open>textwrap.dedent\<close>\<close>

text \<open>
  The regular-expression implementation (CPython up to 3.13):

  \<^verbatim>\<open>
  _whitespace_only_re = re.compile('^[ \t]+$', re.MULTILINE)
  _leading_whitespace_re = re.compile('(^[ \t]*)(?:[^ \t\n])', re.MULTILINE)

  def dedent(text):
      margin = None
      text = _whitespace_only_re.sub('', text)
      indents = _leading_whitespace_re.findall(text)
      for indent in indents:
          if margin is None:
              margin = indent
          elif indent.startswith(margin):
              pass
          elif margin.startswith(indent):
              margin = indent
          else:
              for i, (x, y) in enumerate(zip(margin, indent)):
                  if x != y:
                      margin = margin[:i]
                      break
      if margin:
          text = re.sub(r'(?m)^' + margin, '', text)
      return text
  \<close>

  Both patterns are anchored at line starts and never match a newline, so their effect
  is told line by line, on the lines between the \<^verbatim>\<open>\n\<close>.
\<close>

definition is_blank :: "nat \<Rightarrow> bool" where
  "is_blank c \<longleftrightarrow> c = SPACE \<or> c = TAB"

text \<open>\<^verbatim>\<open>_whitespace_only_re.sub('', text)\<close>: a line of spaces and tabs becomes empty.\<close>

definition whitespace_only_sub :: "pystr list \<Rightarrow> pystr list" where
  "whitespace_only_sub ls = map (\<lambda>l. if l \<noteq> [] \<and> list_all is_blank l then [] else l) ls"

text \<open>
  \<^verbatim>\<open>_leading_whitespace_re.findall(text)\<close>: the leading spaces and tabs of every line
  that has another character after them.
\<close>

definition leading_whitespace :: "pystr list \<Rightarrow> pystr list" where
  "leading_whitespace ls =
     map (takeWhile is_blank) (filter (\<lambda>l. dropWhile is_blank l \<noteq> []) ls)"

text \<open>The inner loop: the index of the first pair of \<^verbatim>\<open>zip(margin, indent)\<close> that differs.\<close>

fun first_mismatch :: "pystr \<Rightarrow> pystr \<Rightarrow> nat option" where
  "first_mismatch (x # xs) (y # ys) =
     (if x \<noteq> y then Some 0 else map_option Suc (first_mismatch xs ys))"
| "first_mismatch _ _ = None"

text \<open>One round of the loop over \<^verbatim>\<open>indents\<close>.\<close>

definition update_margin :: "pystr \<Rightarrow> pystr option \<Rightarrow> pystr option" where
  "update_margin indent margin =
     (case margin of
        None \<Rightarrow> Some indent
      | Some m \<Rightarrow>
          if prefix m indent then Some m
          else if prefix indent m then Some indent
          else (case first_mismatch m indent of
                  Some i \<Rightarrow> Some (take i m)
                | None \<Rightarrow> Some m))"

text \<open>\<^verbatim>\<open>re.sub(r'(?m)^' + margin, '', text)\<close> on one line.\<close>

definition remove_margin :: "pystr \<Rightarrow> pystr \<Rightarrow> pystr" where
  "remove_margin margin l = (if prefix margin l then drop (length margin) l else l)"

definition dedent :: "pystr \<Rightarrow> pystr" where
  "dedent text =
     (let ls = whitespace_only_sub (split_nl text);
          margin = fold update_margin (leading_whitespace ls) None
      in case margin of
           None \<Rightarrow> join_nl ls
         | Some m \<Rightarrow> if m \<noteq> [] then join_nl (map (remove_margin m) ls) else join_nl ls)"

subsection \<open>\<^verbatim>\<open>textwrap.indent\<close>\<close>

text \<open>
  \<^verbatim>\<open>
  def indent(text, prefix, predicate=None):
      if predicate is None:
          def predicate(line):
              return line.strip()
      def prefixed_lines():
          for line in text.splitlines(True):
              yield (prefix + line if predicate(line) else line)
      return ''.join(prefixed_lines())
  \<close>
\<close>

definition textwrap_indent :: "pystr \<Rightarrow> pystr \<Rightarrow> pystr" where
  "textwrap_indent text pre =
     concat (map (\<lambda>line. if strip line \<noteq> [] then pre @ line else line)
               (splitlines_keepends text))"

subsection \<open>\<^verbatim>\<open>normalize_indent\<close>\<close>

datatype error = TypeError | IndexError | FileNotFoundError | NotADirectoryError
  | PermissionError | IsADirectoryError | UnicodeDecodeError

text \<open>
  The second argument is \<^verbatim>\<open>inspect.stack()[1].code_context\<close>, the source lines of the
  calling statement: \<open>None\<close> when the caller's source is not available (subscripting it
  raises \<^verbatim>\<open>TypeError\<close>), else a list whose first element is the caller's line.
  \<^verbatim>\<open>call_line[indent]\<close> raises \<^verbatim>\<open>IndexError\<close> out of range.
\<close>

definition normalize_indent :: "pystr \<Rightarrow> pystr list option \<Rightarrow> error + pystr" where
  "normalize_indent code code_context =
     (let code1 = strip (dedent code) in
      case code_context of
        None \<Rightarrow> Inl TypeError
      | Some [] \<Rightarrow> Inl IndexError
      | Some (call_line # _) \<Rightarrow>
          let indent = length call_line - length (lstrip call_line) in
          if indent < length call_line then
            if call_line ! indent = LBRACE then
              let code2 = textwrap_indent code1 (replicate indent SPACE) in
              Inr (drop indent code2)
            else Inr code1
          else Inl IndexError)"

subsection \<open>\<^verbatim>\<open>get_preamble\<close>\<close>

text \<open>
  A path is its anchor and its components; \<^verbatim>\<open>parent\<close> drops the last component
  and \<^verbatim>\<open>joinpath\<close> with a relative name appends one.
\<close>

record path =
  anchor :: string
  parts :: "string list"

definition parent :: "path \<Rightarrow> path" where
  "parent p = p\<lparr>parts := butlast (parts p)\<rparr>"

definition joinpath :: "path \<Rightarrow> string \<Rightarrow> path" where
  "joinpath p name = p\<lparr>parts := parts p @ [name]\<rparr>"

text \<open>
  The file system is a tree. A regular file has its bytes and a flag that says whether
  the process may read it; a directory has its entries by name, a flag that says
  whether the process may read it and a flag that says whether the process may search
  it. The file system gives the directory where the lookup of a path starts, by the
  anchor of the path: the root for \<^verbatim>\<open>/\<close>, the current directory for a relative path.
\<close>

datatype node =
    File (file_readable: bool) (file_bytes: "char list")
  | Dir (dir_readable: bool) (dir_searchable: bool) (dir_entries: "(string \<times> node) list")

type_synonym filesystem = "string \<Rightarrow> node"

text \<open>
  Opening a path walks its components, as the operating system does: a component
  looked up in a regular file is \<^verbatim>\<open>ENOTDIR\<close> (\<^verbatim>\<open>NotADirectoryError\<close>), in a directory that
  may not be searched \<^verbatim>\<open>EACCES\<close> (\<^verbatim>\<open>PermissionError\<close>), and a name that the directory does
  not have is \<^verbatim>\<open>ENOENT\<close> (\<^verbatim>\<open>FileNotFoundError\<close>).
\<close>

fun lookup :: "node \<Rightarrow> string list \<Rightarrow> error + node" where
  "lookup n [] = Inr n"
| "lookup n (x # xs) =
     (case n of
        File _ _ \<Rightarrow> Inl NotADirectoryError
      | Dir _ searchable entries \<Rightarrow>
          if \<not> searchable then Inl PermissionError
          else (case map_of entries x of
                  None \<Rightarrow> Inl FileNotFoundError
                | Some m \<Rightarrow> lookup m xs))"

text \<open>
  \<^verbatim>\<open>read_text()\<close> opens the file in text mode with the default \<^verbatim>\<open>newline=None\<close>:
  the bytes are decoded, and universal newlines turn \<^verbatim>\<open>\r\n\<close> and \<^verbatim>\<open>\r\<close> into
  \<^verbatim>\<open>\n\<close>. Opening fails when the walk fails, when the path is a directory
  (\<^verbatim>\<open>IsADirectoryError\<close>) and when the process may not read what is there
  (\<^verbatim>\<open>PermissionError\<close>).
\<close>

fun universal_newlines :: "pystr \<Rightarrow> pystr" where
  "universal_newlines [] = []"
| "universal_newlines [c] = (if c = CR then [LF] else [c])"
| "universal_newlines (c # d # cs) =
     (if c = CR \<and> d = LF then LF # universal_newlines cs
      else if c = CR then LF # universal_newlines (d # cs)
      else c # universal_newlines (d # cs))"

text \<open>
  The codec is that of the locale, a parameter here: \<open>decode\<close> gives \<open>None\<close> for bytes
  it rejects.
\<close>

definition read_text ::
  "(char list \<Rightarrow> pystr option) \<Rightarrow> filesystem \<Rightarrow> path \<Rightarrow> error + pystr" where
  "read_text decode fs p =
     (case lookup (fs (anchor p)) (parts p) of
        Inl e \<Rightarrow> Inl e
      | Inr (Dir readable _ _) \<Rightarrow>
          if readable then Inl IsADirectoryError else Inl PermissionError
      | Inr (File readable bytes) \<Rightarrow>
          if \<not> readable then Inl PermissionError
          else (case decode bytes of
                  None \<Rightarrow> Inl UnicodeDecodeError
                | Some decoded \<Rightarrow> Inr (universal_newlines decoded)))"

text \<open>The argument \<open>file\<close> is the module's \<^verbatim>\<open>__file__\<close>.\<close>

definition get_preamble ::
  "(char list \<Rightarrow> pystr option) \<Rightarrow> filesystem \<Rightarrow> path \<Rightarrow> error + pystr" where
  "get_preamble decode fs file = read_text decode fs (joinpath (parent file) ''preamble.txt'')"

text \<open>The Latin-1 codec, which accepts every byte.\<close>

definition latin1 :: "char list \<Rightarrow> pystr option" where
  "latin1 bytes = Some (map of_char bytes)"

subsection \<open>The functions as they are called\<close>




subsection \<open>What the functions are meant to compute\<close>

text \<open>
  The definitions of this part are not taken from the code: they say, in the words of
  the documentation, what the code is compared with. A line has content when it has a
  character other than a space or a tab. The common margin of a list of lines is the
  longest string of spaces and tabs that every line with content starts with.
\<close>

definition has_content :: "pystr \<Rightarrow> bool" where
  "has_content l \<longleftrightarrow> dropWhile is_blank l \<noteq> []"

definition common_margin :: "pystr list \<Rightarrow> pystr" where
  "common_margin ls =
     (case map (takeWhile is_blank) (filter has_content ls) of
        [] \<Rightarrow> []
      | i # is \<Rightarrow> fold (\<lambda>i m. longest_common_prefix m i) is i)"

text \<open>
  Re-indenting to column \<open>n\<close>: a line gets \<open>n\<close> spaces in front unless it is made of
  whitespace only (\<open>indent_line\<close>); \<open>reindent_rest\<close> does so for every line after the
  first and leaves the first line as it is.
\<close>

definition indent_line :: "nat \<Rightarrow> pystr \<Rightarrow> pystr" where
  "indent_line n line = (if list_all isspace line then line else replicate n SPACE @ line)"

definition reindent_rest :: "nat \<Rightarrow> pystr \<Rightarrow> pystr" where
  "reindent_rest n s =
     (case splitlines_keepends s of
        [] \<Rightarrow> []
      | l # ls \<Rightarrow> l @ concat (map (indent_line n) ls))"





section \<open>Properties\<close>

lemmas eval_defs =
  normalize_indent_def str_def strip_def lstrip_def rstrip_def dedent_def isspace_def
  whitespace_only_sub_def leading_whitespace_def is_blank_def update_margin_def
  remove_margin_def textwrap_indent_def is_linebreak_def

subsection \<open>Stripping and splitting\<close>

lemma replicate_4: "replicate 4 x = [x, x, x, x]"
  by (simp add: numeral_eq_Suc)

lemma lstrip_length: "length (lstrip s) \<le> length s"
  by (simp add: lstrip_def length_dropWhile_le)

lemma lstrip_Nil_iff: "lstrip s = [] \<longleftrightarrow> (\<forall>c\<in>set s. isspace c)"
  by (simp add: lstrip_def)

lemma rstrip_Nil_iff: "rstrip s = [] \<longleftrightarrow> (\<forall>c\<in>set s. isspace c)"
  by (simp add: rstrip_def)

lemma rstrip_decomp: "s = rstrip s @ rev (takeWhile isspace (rev s))"
  unfolding rstrip_def by (metis rev_append rev_rev_ident takeWhile_dropWhile_id)

lemma rstrip_hd: "rstrip s \<noteq> [] \<Longrightarrow> hd (rstrip s) = hd s"
  using rstrip_decomp [of s] by (metis hd_append2)

lemma rstrip_last: "rstrip s \<noteq> [] \<Longrightarrow> \<not> isspace (last (rstrip s))"
  unfolding rstrip_def using hd_dropWhile [of isspace "rev s"]
  by (simp add: last_rev)

lemma lstrip_hd: "lstrip s \<noteq> [] \<Longrightarrow> \<not> isspace (hd (lstrip s))"
  unfolding lstrip_def by (rule hd_dropWhile)

lemma strip_ends:
  assumes "strip s \<noteq> []"
  shows "\<not> isspace (hd (strip s))" and "\<not> isspace (last (strip s))"
proof -
  from assms have ne: "lstrip s \<noteq> []" by (auto simp: strip_def rstrip_def)
  from assms have "hd (strip s) = hd (lstrip s)" unfolding strip_def by (rule rstrip_hd)
  with lstrip_hd [OF ne] show "\<not> isspace (hd (strip s))" by simp
  from assms show "\<not> isspace (last (strip s))" unfolding strip_def by (rule rstrip_last)
qed

lemma strip_Nil_iff: "strip s = [] \<longleftrightarrow> (\<forall>c\<in>set s. isspace c)"
proof
  assume "strip s = []"
  then have a: "\<forall>c\<in>set (lstrip s). isspace c" by (simp add: strip_def rstrip_Nil_iff)
  have "s = takeWhile isspace s @ lstrip s" by (simp add: lstrip_def)
  then have "set s = set (takeWhile isspace s) \<union> set (lstrip s)" by (metis set_append)
  with a show "\<forall>c\<in>set s. isspace c" by (auto dest: set_takeWhileD)
next
  assume "\<forall>c\<in>set s. isspace c"
  then have "lstrip s = []" by (simp add: lstrip_def)
  then show "strip s = []" by (simp add: strip_def rstrip_def)
qed

lemma strip_id:
  assumes "s \<noteq> []" "\<not> isspace (hd s)" "\<not> isspace (last s)"
  shows "strip s = s"
proof -
  from assms have l: "lstrip s = s" by (cases s) (simp_all add: lstrip_def)
  from assms have "rev s \<noteq> []" "\<not> isspace (hd (rev s))" by (simp_all add: hd_rev)
  then have "dropWhile isspace (rev s) = rev s" by (cases "rev s") simp_all
  then show ?thesis by (simp add: strip_def l rstrip_def)
qed

lemma strip_Nil [simp]: "strip [] = []"
  by (simp add: strip_def lstrip_def rstrip_def)

lemma splitlines_keepends_Nil_iff: "splitlines_keepends s = [] \<longleftrightarrow> s = []"
proof (cases s)
  case Nil
  then show ?thesis by simp
next
  case (Cons c t)
  then show ?thesis by (cases t) (auto split: list.splits)
qed

lemma concat_splitlines_keepends: "concat (splitlines_keepends s) = s"
  by (induction s rule: splitlines_keepends.induct)
     (auto split: list.splits simp: splitlines_keepends_Nil_iff)

lemma splitlines_keepends_nonempty: "l \<in> set (splitlines_keepends s) \<Longrightarrow> l \<noteq> []"
  by (induction s arbitrary: l rule: splitlines_keepends.induct)
     (auto split: list.splits if_splits)

lemma join_split_nl: "join_nl (split_nl s) = s"
proof (induction s)
  case Nil
  show ?case by simp
next
  case (Cons c cs)
  show ?case
  proof (cases "split_nl cs")
    case Nil
    with Cons show ?thesis by simp
  next
    case (Cons l ls)
    with Cons.IH show ?thesis by (cases ls) auto
  qed
qed

lemma split_nl_nonempty: "split_nl s \<noteq> []"
  by (induction s) (auto split: list.splits)

subsection \<open>\<^verbatim>\<open>textwrap.indent\<close> after \<^verbatim>\<open>strip\<close>\<close>

lemma textwrap_indent_lines:
  "textwrap_indent s (replicate n SPACE) = concat (map (indent_line n) (splitlines_keepends s))"
proof -
  have "(\<lambda>line. if strip line \<noteq> [] then replicate n SPACE @ line else line) = indent_line n"
    by (rule ext) (simp add: indent_line_def strip_Nil_iff list_all_iff)
  then show ?thesis by (simp add: textwrap_indent_def)
qed

lemma splitlines_keepends_first:
  assumes "s \<noteq> []"
  obtains l ls where "splitlines_keepends s = l # ls" and "l \<noteq> []" and "hd l = hd s"
proof -
  from assms obtain l ls where sl: "splitlines_keepends s = l # ls"
    by (cases "splitlines_keepends s") (simp_all add: splitlines_keepends_Nil_iff)
  then have ne: "l \<noteq> []" using splitlines_keepends_nonempty [of l s] by simp
  have "s = l @ concat ls" using concat_splitlines_keepends [of s] sl by simp
  with ne have "hd l = hd s" by simp
  with sl ne show ?thesis by (rule that)
qed

lemma indent_drop_first:
  assumes "s \<noteq> []" and "\<not> isspace (hd s)"
  shows "textwrap_indent s (replicate n SPACE) = replicate n SPACE @ reindent_rest n s"
proof -
  from assms(1) obtain l ls where sl: "splitlines_keepends s = l # ls"
    and ne: "l \<noteq> []" and h: "hd l = hd s"
    by (rule splitlines_keepends_first)
  from ne h assms(2) have "\<not> list_all isspace l" by (cases l) simp_all
  then have "indent_line n l = replicate n SPACE @ l" by (simp add: indent_line_def)
  then show ?thesis by (simp add: textwrap_indent_lines reindent_rest_def sl)
qed

lemma brace_branch_result:
  "drop n (textwrap_indent (strip t) (replicate n SPACE)) = reindent_rest n (strip t)"
proof (cases "strip t = []")
  case True
  then show ?thesis by (simp add: textwrap_indent_def reindent_rest_def)
next
  case False
  then have "\<not> isspace (hd (strip t))" by (rule strip_ends)
  with False show ?thesis by (simp add: indent_drop_first)
qed

lemma last_concat:
  "xs \<noteq> [] \<Longrightarrow> last xs \<noteq> [] \<Longrightarrow> last (concat xs) = last (last xs)"
  by (induction xs) (auto simp: last_append)

lemma indent_line_last: "l \<noteq> [] \<Longrightarrow> indent_line n l \<noteq> [] \<and> last (indent_line n l) = last l"
  by (simp add: indent_line_def)

lemma reindent_rest_ends:
  assumes "s \<noteq> []"
  shows "reindent_rest n s \<noteq> []" and "hd (reindent_rest n s) = hd s"
    and "last (reindent_rest n s) = last s"
proof -
  from assms obtain l ls where sl: "splitlines_keepends s = l # ls"
    and ne: "l \<noteq> []" and h: "hd l = hd s"
    by (rule splitlines_keepends_first)
  have r: "reindent_rest n s = l @ concat (map (indent_line n) ls)"
    by (simp add: reindent_rest_def sl)
  from r ne show "reindent_rest n s \<noteq> []" by simp
  from r ne h show "hd (reindent_rest n s) = hd s" by simp
  have s: "s = l @ concat ls" using concat_splitlines_keepends [of s] sl by simp
  show "last (reindent_rest n s) = last s"
  proof (cases "ls = []")
    case True
    with r s show ?thesis by simp
  next
    case False
    have lne: "last ls \<noteq> []"
      using splitlines_keepends_nonempty [of "last ls" s] sl False by simp
    from False lne have c: "concat ls \<noteq> []" by (metis concat_eq_Nil_conv last_in_set)
    have il: "indent_line n (last ls) \<noteq> []" "last (indent_line n (last ls)) = last (last ls)"
      using indent_line_last [OF lne] by simp_all
    from False il have m: "concat (map (indent_line n) ls) \<noteq> []"
      by (metis concat_eq_Nil_conv last_in_set last_map map_is_Nil_conv)
    have "last (concat (map (indent_line n) ls)) = last (last (map (indent_line n) ls))"
      using False il by (intro last_concat) (simp_all add: last_map)
    also have "\<dots> = last (last ls)" using False il by (simp add: last_map)
    also have "\<dots> = last (concat ls)" using False lne by (simp add: last_concat)
    finally have "last (concat (map (indent_line n) ls)) = last (concat ls)" .
    moreover have "last (reindent_rest n s) = last (concat (map (indent_line n) ls))"
      using r m by (metis last_appendR)
    moreover have "last s = last (concat ls)"
      using s c by (metis last_appendR)
    ultimately show ?thesis by simp
  qed
qed

lemma normalize_indent_cases:
  assumes "n = length call_line - length (lstrip call_line)" and "n < length call_line"
  shows "normalize_indent code (Some (call_line # rest)) =
     Inr (if call_line ! n = LBRACE then reindent_rest n (strip (dedent code))
          else strip (dedent code))"
  using assms by (simp add: normalize_indent_def Let_def brace_branch_result)

lemma normalize_indent_Inr:
  assumes "normalize_indent code ctx = Inr r"
  obtains call_line rest where "ctx = Some (call_line # rest)"
    and "length call_line - length (lstrip call_line) < length call_line"
  using assms by (auto simp: normalize_indent_def Let_def split: option.splits list.splits if_splits)

subsection \<open>\<^verbatim>\<open>textwrap.dedent\<close> removes the common margin\<close>

lemma has_content_iff: "has_content l \<longleftrightarrow> \<not> list_all is_blank l"
  by (simp add: has_content_def list_all_iff)

lemma whitespace_only_sub_content:
  "whitespace_only_sub ls = map (\<lambda>l. if has_content l then l else []) ls"
  unfolding whitespace_only_sub_def by (rule map_cong) (auto simp: has_content_iff)

lemma leading_whitespace_sub:
  "leading_whitespace (whitespace_only_sub ls) = map (takeWhile is_blank) (filter has_content ls)"
  by (induction ls) (simp_all add: leading_whitespace_def whitespace_only_sub_content has_content_def)

lemma first_mismatch_Some:
  "first_mismatch m i = Some k \<Longrightarrow> take k m = longest_common_prefix m i"
  by (induction m i arbitrary: k rule: first_mismatch.induct) (auto split: if_splits)

lemma first_mismatch_None:
  "first_mismatch m i = None \<Longrightarrow> prefix m i \<or> prefix i m"
  by (induction m i rule: first_mismatch.induct) (auto split: if_splits)

lemma longest_common_prefix_left: "prefix m i \<Longrightarrow> longest_common_prefix m i = m"
  by (induction m i rule: longest_common_prefix.induct) auto

lemma longest_common_prefix_right: "prefix i m \<Longrightarrow> longest_common_prefix m i = i"
  by (induction m i rule: longest_common_prefix.induct) auto

lemma update_margin_Some:
  "update_margin i (Some m) = Some (longest_common_prefix m i)"
proof (cases "prefix m i")
  case True
  then show ?thesis by (simp add: update_margin_def longest_common_prefix_left)
next
  case nm: False
  show ?thesis
  proof (cases "prefix i m")
    case True
    with nm show ?thesis by (simp add: update_margin_def longest_common_prefix_right)
  next
    case False
    with nm first_mismatch_None [of m i] obtain k where k: "first_mismatch m i = Some k"
      by (cases "first_mismatch m i") auto
    with nm False show ?thesis by (simp add: update_margin_def first_mismatch_Some)
  qed
qed

lemma fold_update_margin_Some:
  "fold update_margin is (Some m) = Some (fold (\<lambda>i m. longest_common_prefix m i) is m)"
  by (induction "is" arbitrary: m) (simp_all add: update_margin_Some)

lemma fold_update_margin:
  "fold update_margin is None =
     (case is of [] \<Rightarrow> None | i # js \<Rightarrow> Some (fold (\<lambda>i m. longest_common_prefix m i) js i))"
  by (cases "is") (simp_all add: fold_update_margin_Some update_margin_def)

lemma fold_lcp_prefix:
  "prefix (fold (\<lambda>i m. longest_common_prefix m i) is m) m \<and>
   (\<forall>i\<in>set is. prefix (fold (\<lambda>i m. longest_common_prefix m i) is m) i)"
proof (induction "is" arbitrary: m)
  case Nil
  show ?case by simp
next
  case (Cons j js)
  let ?m = "longest_common_prefix m j"
  from Cons [of ?m] have a: "prefix (fold (\<lambda>i m. longest_common_prefix m i) js ?m) ?m"
    and b: "\<forall>i\<in>set js. prefix (fold (\<lambda>i m. longest_common_prefix m i) js ?m) i"
    by simp_all
  from a have "prefix (fold (\<lambda>i m. longest_common_prefix m i) js ?m) m"
    and "prefix (fold (\<lambda>i m. longest_common_prefix m i) js ?m) j"
    using longest_common_prefix_prefix1 [of m j] longest_common_prefix_prefix2 [of m j]
    by (meson prefix_order.order_trans)+
  with b show ?case by simp
qed

lemma fold_lcp_max:
  "prefix p m \<Longrightarrow> \<forall>i\<in>set is. prefix p i \<Longrightarrow>
     prefix p (fold (\<lambda>i m. longest_common_prefix m i) is m)"
  by (induction "is" arbitrary: m) (simp_all add: longest_common_prefix_max_prefix)

lemma common_margin_prefix:
  assumes "l \<in> set ls" and "has_content l"
  shows "prefix (common_margin ls) l"
proof -
  let ?is = "map (takeWhile is_blank) (filter has_content ls)"
  from assms have mem: "takeWhile is_blank l \<in> set ?is" by simp
  then obtain i js where ij: "?is = i # js" by (cases ?is) auto
  have "prefix (common_margin ls) (takeWhile is_blank l)"
    using fold_lcp_prefix [of js i] mem unfolding common_margin_def ij by auto
  moreover have "prefix (takeWhile is_blank l) l"
    by (metis prefixI takeWhile_dropWhile_id)
  ultimately show ?thesis by (rule prefix_order.order_trans)
qed

lemma prefix_takeWhile:
  "prefix p l \<Longrightarrow> list_all P p \<Longrightarrow> prefix p (takeWhile P l)"
  by (auto simp: prefix_def list_all_iff)

lemma common_margin_blank: "list_all is_blank (common_margin ls)"
proof (cases "map (takeWhile is_blank) (filter has_content ls)")
  case Nil
  then show ?thesis by (simp add: common_margin_def)
next
  case (Cons i js)
  then have "i \<in> set (map (takeWhile is_blank) (filter has_content ls))" by simp
  then obtain l where "i = takeWhile is_blank l" by auto
  then have "list_all is_blank i" by (auto simp: list_all_iff dest: set_takeWhileD)
  moreover have "prefix (common_margin ls) i"
    using fold_lcp_prefix [of js i] by (simp add: common_margin_def Cons)
  ultimately show ?thesis by (auto simp: prefix_def)
qed

lemma common_margin_max:
  assumes "list_all is_blank p" and "\<exists>l\<in>set ls. has_content l"
    and "\<forall>l\<in>set ls. has_content l \<longrightarrow> prefix p l"
  shows "prefix p (common_margin ls)"
proof -
  let ?is = "map (takeWhile is_blank) (filter has_content ls)"
  from assms(2) obtain i js where ij: "?is = i # js" by (cases ?is) (auto simp: filter_empty_conv)
  have "\<forall>j\<in>set ?is. prefix p j"
    using assms(1,3) by (auto intro: prefix_takeWhile)
  then have "prefix p i" "\<forall>j\<in>set js. prefix p j" unfolding ij by simp_all
  then show ?thesis unfolding common_margin_def ij by (simp add: fold_lcp_max)
qed

lemma dedent_lines:
  "dedent code =
     join_nl (map (\<lambda>l. if has_content l then drop (length (common_margin (split_nl code))) l else [])
                (split_nl code))"
proof -
  let ?ls = "split_nl code"
  let ?is = "map (takeWhile is_blank) (filter has_content ?ls)"
  show ?thesis
  proof (cases ?is)
    case Nil
    then have "\<forall>l\<in>set ?ls. \<not> has_content l" by (auto simp: filter_empty_conv)
    then have e: "whitespace_only_sub ?ls =
       map (\<lambda>l. if has_content l then drop (length (common_margin ?ls)) l else []) ?ls"
      by (simp add: whitespace_only_sub_content)
    from Nil have m: "fold update_margin (leading_whitespace (whitespace_only_sub ?ls)) None = None"
      by (simp add: leading_whitespace_sub)
    show ?thesis unfolding dedent_def Let_def m using e by simp
  next
    case (Cons i js)
    then have m: "fold update_margin (leading_whitespace (whitespace_only_sub ?ls)) None
       = Some (common_margin ?ls)"
      by (simp only: leading_whitespace_sub fold_update_margin common_margin_def list.case)
    have "remove_margin (common_margin ?ls) (if has_content l then l else []) =
        (if has_content l then drop (length (common_margin ?ls)) l else [])"
      if "l \<in> set ?ls" for l
      using that common_margin_prefix [of l ?ls] by (auto simp: remove_margin_def)
    then have r: "map (remove_margin (common_margin ?ls)) (whitespace_only_sub ?ls) =
       map (\<lambda>l. if has_content l then drop (length (common_margin ?ls)) l else []) ?ls"
      by (simp add: whitespace_only_sub_content)
    have z: "common_margin ?ls = [] \<Longrightarrow> whitespace_only_sub ?ls =
       map (\<lambda>l. if has_content l then drop (length (common_margin ?ls)) l else []) ?ls"
      by (simp add: whitespace_only_sub_content)
    show ?thesis unfolding dedent_def Let_def m using r z by simp
  qed
qed

lemma strip_decomp:
  "\<exists>a b. list_all isspace a \<and> list_all isspace b \<and> s = a @ strip s @ b"
proof -
  have "s = takeWhile isspace s @ lstrip s" by (simp add: lstrip_def)
  moreover have "lstrip s = strip s @ rev (takeWhile isspace (rev (lstrip s)))"
    unfolding strip_def by (rule rstrip_decomp)
  ultimately have "s = takeWhile isspace s @ strip s @ rev (takeWhile isspace (rev (lstrip s)))"
    by simp
  moreover have "list_all isspace (takeWhile isspace s)"
    by (auto simp: list_all_iff dest: set_takeWhileD)
  moreover have "list_all isspace (rev (takeWhile isspace (rev (lstrip s))))"
    by (auto simp: list_all_iff dest: set_takeWhileD)
  ultimately show ?thesis by blast
qed

subsection \<open>Text that is already dedented\<close>

lemma indent_line_0: "indent_line 0 l = l"
  by (simp add: indent_line_def)

lemma reindent_rest_0: "reindent_rest 0 s = s"
proof (cases "splitlines_keepends s")
  case Nil
  then show ?thesis by (simp add: reindent_rest_def splitlines_keepends_Nil_iff)
next
  case (Cons l ls)
  have "map (indent_line 0) ls = ls" by (induction ls) (simp_all add: indent_line_0)
  with Cons concat_splitlines_keepends [of s] show ?thesis by (simp add: reindent_rest_def)
qed

lemma split_nl_first:
  assumes "code \<noteq> []" and "hd code \<noteq> LF"
  obtains l ls where "split_nl code = l # ls" and "l \<noteq> []" and "hd l = hd code"
proof -
  from assms obtain c cs where c: "code = c # cs" "c \<noteq> LF" by (cases code) auto
  obtain k ks where k: "split_nl cs = k # ks" using split_nl_nonempty [of cs] by (cases "split_nl cs") auto
  from c k have "split_nl code = (c # k) # ks" by simp
  with c show ?thesis by (intro that [of "c # k" ks]) simp_all
qed

lemma is_blank_isspace: "is_blank c \<Longrightarrow> isspace c"
  by (auto simp: is_blank_def isspace_def)

lemma dedent_id:
  assumes "code \<noteq> []" and "\<not> isspace (hd code)"
    and "\<forall>l\<in>set (split_nl code). l \<noteq> [] \<longrightarrow> has_content l"
  shows "dedent code = code"
proof -
  from assms(2) have "hd code \<noteq> LF" by (auto simp: isspace_def)
  with assms(1) obtain l ls where sl: "split_nl code = l # ls" and ne: "l \<noteq> []"
    and h: "hd l = hd code"
    by (rule split_nl_first)
  from sl ne assms(3) have "has_content l" by simp
  with sl have p: "prefix (common_margin (split_nl code)) l"
    by (intro common_margin_prefix) simp_all
  have m: "common_margin (split_nl code) = []"
  proof (rule ccontr)
    assume "common_margin (split_nl code) \<noteq> []"
    then obtain x xs where x: "common_margin (split_nl code) = x # xs"
      by (cases "common_margin (split_nl code)") auto
    with common_margin_blank [of "split_nl code"] have "is_blank x" by simp
    moreover from p x ne have "hd l = x" by (cases l) simp_all
    ultimately show False using h assms(2) by (auto dest: is_blank_isspace)
  qed
  have "(if has_content k then k else []) = k" if "k \<in> set (split_nl code)" for k
    using that assms(3) by auto
  then have e: "map (\<lambda>l. if has_content l then l else []) (split_nl code) = split_nl code"
    by (simp add: map_idI)
  have "dedent code =
     join_nl (map (\<lambda>l. if has_content l then drop (length (common_margin (split_nl code))) l else [])
                (split_nl code))"
    by (rule dedent_lines)
  also have "\<dots> = join_nl (map (\<lambda>l. if has_content l then l else []) (split_nl code))"
    unfolding m by (simp cong: if_cong)
  also have "\<dots> = join_nl (split_nl code)"
    unfolding e by (rule refl)
  finally show ?thesis by (simp only: join_split_nl)
qed

lemma dedent_Nil: "dedent [] = []"
  by (simp add: eval_defs)

subsection \<open>Paths and universal newlines\<close>

lemma universal_newlines_id: "CR \<notin> set s \<Longrightarrow> universal_newlines s = s"
  by (induction s rule: universal_newlines.induct) auto

lemma preamble_path:
  "joinpath (parent file) ''preamble.txt'' =
     \<lparr>anchor = anchor file, parts = butlast (parts file) @ [''preamble.txt'']\<rparr>"
  by (simp add: parent_def joinpath_def)

subsection \<open>Walking the file system\<close>








subsection \<open>The branch without an opening brace\<close>

text \<open>
  Claim C5. When the caller's line has, at the position of its first non-whitespace
  character, a character other than \<^verbatim>\<open>{\<close>, \<open>normalize_indent\<close> returns
  \<^verbatim>\<open>textwrap.dedent(code).strip()\<close>: the indentation of the caller's line does not
  enter the result, and nothing is indented.
\<close>

theorem normalize_indent_no_brace:
  assumes "indent = length call_line - length (lstrip call_line)"
    and "indent < length call_line"
    and "call_line ! indent \<noteq> LBRACE"
  shows "normalize_indent code (Some (call_line # rest)) = Inr (strip (dedent code))"
  using assms by (simp add: normalize_indent_def Let_def)

theorem normalize_indent_no_brace_witness:
  "(4::nat) = length (str ''    x = f(s)'') - length (lstrip (str ''    x = f(s)''))
   \<and> 4 < length (str ''    x = f(s)'')
   \<and> str ''    x = f(s)'' ! 4 \<noteq> LBRACE
   \<and> normalize_indent (str ''  a\<newline>    b\<newline>'') (Some [str ''    x = f(s)''])
       = Inr (str ''a\<newline>  b'')"
proof -
  have h1: "(4::nat) = length (str ''    x = f(s)'') - length (lstrip (str ''    x = f(s)''))"
    by (simp add: eval_defs)
  have h2: "4 < length (str ''    x = f(s)'')"
    by (simp add: str_def)
  have h3: "str ''    x = f(s)'' ! 4 \<noteq> LBRACE"
    by (simp add: str_def)
  have v: "strip (dedent (str ''  a\<newline>    b\<newline>'')) = str ''a\<newline>  b''"
    by (simp add: eval_defs)
  from normalize_indent_no_brace [OF h1 h2 h3, of "str ''  a\<newline>    b\<newline>''" "[]"] h1 h2 h3 v
  show ?thesis by simp
qed

subsection \<open>The unguarded index\<close>

lemma indent_in_range_iff:
  "length call_line - length (lstrip call_line) < length call_line
     \<longleftrightarrow> (\<exists>c\<in>set call_line. \<not> isspace c)"
proof -
  have "lstrip call_line \<noteq> [] \<longleftrightarrow> (\<exists>c\<in>set call_line. \<not> isspace c)"
    by (simp add: lstrip_Nil_iff)
  moreover have "length call_line - length (lstrip call_line) < length call_line
     \<longleftrightarrow> lstrip call_line \<noteq> []"
    using lstrip_length [of call_line] by (cases "lstrip call_line") auto
  ultimately show ?thesis by simp
qed

text \<open>
  Claim C8. \<^verbatim>\<open>call_line[indent]\<close> is read with no bounds check. When the caller's line
  has a character that is not whitespace, the index is in range and the function
  returns a string; when the caller's line is made of whitespace only, the index is
  the length of the line, out of range, and the function raises \<^verbatim>\<open>IndexError\<close>.
\<close>

theorem normalize_indent_index:
  "((\<exists>c\<in>set call_line. \<not> isspace c) \<longrightarrow>
      length call_line - length (lstrip call_line) < length call_line \<and>
      (\<exists>r. normalize_indent code (Some (call_line # rest)) = Inr r)) \<and>
   ((\<forall>c\<in>set call_line. isspace c) \<longrightarrow>
      length call_line - length (lstrip call_line) = length call_line \<and>
      normalize_indent code (Some (call_line # rest)) = Inl IndexError)"
proof -
  have a: "(\<forall>c\<in>set call_line. isspace c) \<Longrightarrow> lstrip call_line = []"
    by (simp add: lstrip_Nil_iff)
  show ?thesis
    using indent_in_range_iff [of call_line] a
    by (auto simp: normalize_indent_def Let_def)
qed

theorem normalize_indent_index_witness:
  "(\<exists>c\<in>set (str ''  f(x)''). \<not> isspace c) \<and>
   (\<exists>r. normalize_indent (str ''a'') (Some [str ''  f(x)'']) = Inr r) \<and>
   list_all isspace (str ''   \<newline>'') \<and>
   normalize_indent (str ''a'') (Some [str ''   \<newline>'']) = Inl IndexError"
proof -
  have h1: "\<exists>c\<in>set (str ''  f(x)''). \<not> isspace c"
    by (simp add: str_def isspace_def)
  have h2: "\<forall>c\<in>set (str ''   \<newline>''). isspace c"
    by (simp add: str_def isspace_def)
  from normalize_indent_index [of "str ''  f(x)''" "str ''a''" "[]"] h1
  have c1: "\<exists>r. normalize_indent (str ''a'') (Some [str ''  f(x)'']) = Inr r" by blast
  from normalize_indent_index [of "str ''   \<newline>''" "str ''a''" "[]"] h2
  have c2: "normalize_indent (str ''a'') (Some [str ''   \<newline>'']) = Inl IndexError" by blast
  from h1 h2 c1 c2 show ?thesis by (simp add: list_all_iff)
qed

subsection \<open>No whitespace around the result\<close>

text \<open>
  Claim C9. Whatever the block and the caller's line, in the branch with the brace as in
  the branch without, a string that \<open>normalize_indent\<close> returns is empty or has a first
  and a last character that are not whitespace: it has no blank line at its start or
  at its end.
\<close>

theorem normalize_indent_no_outer_whitespace:
  assumes "normalize_indent code ctx = Inr r"
  shows "r = [] \<or> (\<not> isspace (hd r) \<and> \<not> isspace (last r))"
proof -
  from assms obtain call_line rest where c: "ctx = Some (call_line # rest)"
    and i: "length call_line - length (lstrip call_line) < length call_line"
    by (rule normalize_indent_Inr)
  define n where "n = length call_line - length (lstrip call_line)"
  define s where "s = strip (dedent code)"
  have "normalize_indent code (Some (call_line # rest)) =
     Inr (if call_line ! n = LBRACE then reindent_rest n (strip (dedent code))
          else strip (dedent code))"
    using n_def i [folded n_def] by (rule normalize_indent_cases)
  with assms c have r: "r = (if call_line ! n = LBRACE then reindent_rest n s else s)"
    unfolding s_def by simp
  show ?thesis
  proof (cases "s = []")
    case True
    with r show ?thesis by (simp add: reindent_rest_def)
  next
    case False
    then have "\<not> isspace (hd s)" "\<not> isspace (last s)"
      unfolding s_def by (rule strip_ends)+
    with r reindent_rest_ends [OF False, of n] show ?thesis by simp
  qed
qed

theorem normalize_indent_no_outer_whitespace_witness:
  "normalize_indent (str ''\<newline>    a\<newline>\<newline>      b\<newline>  '') (Some [str ''    {f(s)}\<newline>''])
     = Inr (str ''a\<newline>\<newline>      b'')
   \<and> \<not> isspace (hd (str ''a\<newline>\<newline>      b''))
   \<and> \<not> isspace (last (str ''a\<newline>\<newline>      b''))"
proof -
  have e: "normalize_indent (str ''\<newline>    a\<newline>\<newline>      b\<newline>  '') (Some [str ''    {f(s)}\<newline>''])
     = Inr (str ''a\<newline>\<newline>      b'')"
    by (simp add: eval_defs)
  have "str ''a\<newline>\<newline>      b'' \<noteq> []" by (simp add: str_def)
  with normalize_indent_no_outer_whitespace [OF e] e show ?thesis by simp
qed

subsection \<open>Re-indentation\<close>

text \<open>
  Claim C1, as the specification states it, says that every line of the result starts
  with the \<open>N\<close> spaces of the caller's indentation. It does not: with a caller's line
  indented by four spaces and no brace, the dedented block comes back with no
  indentation, and with a brace the first line has none.
\<close>

theorem normalize_indent_reindent_counterexample:
  "length (str ''    x = f(s)\<newline>'') - length (lstrip (str ''    x = f(s)\<newline>'')) = 4
   \<and> normalize_indent (str ''  a\<newline>  b'') (Some [str ''    x = f(s)\<newline>'']) = Inr (str ''a\<newline>b'')
   \<and> \<not> prefix (replicate 4 SPACE) (str ''a\<newline>b'')
   \<and> length (str ''    {f(s)}\<newline>'') - length (lstrip (str ''    {f(s)}\<newline>'')) = 4
   \<and> normalize_indent (str ''  a\<newline>  b'') (Some [str ''    {f(s)}\<newline>'']) = Inr (str ''a\<newline>    b'')
   \<and> \<not> prefix (replicate 4 SPACE) (str ''a\<newline>    b'')"
  by (simp add: eval_defs replicate_4)

text \<open>
  Claim C1, amended. \<open>normalize_indent\<close> removes the common margin of the lines with
  content (the longest string of spaces and tabs they all start with; a line without
  content becomes empty), strips the whitespace around the block, and computes the
  indentation \<open>n\<close> of the caller's line. When the character at position \<open>n\<close> is not
  \<^verbatim>\<open>{\<close>, it returns that block with no indentation added. When it is \<^verbatim>\<open>{\<close>, it returns
  the block with \<open>n\<close> spaces in front of every line after the first that is not made of
  whitespace only; the first line and the whitespace-only lines get none.
\<close>

theorem normalize_indent_structure:
  assumes "n = length call_line - length (lstrip call_line)" and "n < length call_line"
  shows "normalize_indent code (Some (call_line # rest)) =
           Inr (if call_line ! n = LBRACE then reindent_rest n (strip (dedent code))
                else strip (dedent code))
    \<and> dedent code =
          join_nl (map (\<lambda>l. if has_content l
                           then drop (length (common_margin (split_nl code))) l else [])
                     (split_nl code))
    \<and> list_all is_blank (common_margin (split_nl code))
    \<and> (\<forall>l\<in>set (split_nl code). has_content l \<longrightarrow> prefix (common_margin (split_nl code)) l)
    \<and> (\<forall>p. list_all is_blank p \<and> (\<exists>l\<in>set (split_nl code). has_content l) \<and>
            (\<forall>l\<in>set (split_nl code). has_content l \<longrightarrow> prefix p l)
          \<longrightarrow> prefix p (common_margin (split_nl code)))
    \<and> (\<exists>a b. list_all isspace a \<and> list_all isspace b \<and>
            dedent code = a @ strip (dedent code) @ b)"
proof -
  have 1: "normalize_indent code (Some (call_line # rest)) =
           Inr (if call_line ! n = LBRACE then reindent_rest n (strip (dedent code))
                else strip (dedent code))"
    using assms by (rule normalize_indent_cases)
  have 2: "\<forall>l\<in>set (split_nl code). has_content l \<longrightarrow> prefix (common_margin (split_nl code)) l"
    by (simp add: common_margin_prefix)
  have 3: "\<forall>p. list_all is_blank p \<and> (\<exists>l\<in>set (split_nl code). has_content l) \<and>
            (\<forall>l\<in>set (split_nl code). has_content l \<longrightarrow> prefix p l)
          \<longrightarrow> prefix p (common_margin (split_nl code))"
    using common_margin_max [of _ "split_nl code"] by blast
  from 1 dedent_lines [of code] common_margin_blank [of "split_nl code"] 2 3
    strip_decomp [of "dedent code"]
  show ?thesis by (intro conjI)
qed

theorem normalize_indent_structure_witness:
  "(4::nat) = length (str ''    {f(s)}\<newline>'') - length (lstrip (str ''    {f(s)}\<newline>''))
   \<and> 4 < length (str ''    {f(s)}\<newline>'')
   \<and> normalize_indent (str ''\<newline>      if x:\<newline>\<newline>        y = 1\<newline>      z = 2\<newline>'')
         (Some [str ''    {f(s)}\<newline>''])
       = Inr (str ''if x:\<newline>\<newline>      y = 1\<newline>    z = 2'')"
proof -
  have h1: "(4::nat) = length (str ''    {f(s)}\<newline>'') - length (lstrip (str ''    {f(s)}\<newline>''))"
    by (simp add: eval_defs)
  have h2: "4 < length (str ''    {f(s)}\<newline>'')"
    by (simp add: str_def)
  have b: "str ''    {f(s)}\<newline>'' ! 4 = LBRACE"
    by (simp add: str_def)
  have v: "reindent_rest 4 (strip (dedent (str ''\<newline>      if x:\<newline>\<newline>        y = 1\<newline>      z = 2\<newline>'')))
      = str ''if x:\<newline>\<newline>      y = 1\<newline>    z = 2''"
    by (simp add: eval_defs reindent_rest_def indent_line_def replicate_4)
  from normalize_indent_structure [OF h1 h2,
      of "str ''\<newline>      if x:\<newline>\<newline>        y = 1\<newline>      z = 2\<newline>''" "[]"]
  have "normalize_indent (str ''\<newline>      if x:\<newline>\<newline>        y = 1\<newline>      z = 2\<newline>'')
         (Some [str ''    {f(s)}\<newline>''])
       = Inr (if str ''    {f(s)}\<newline>'' ! 4 = LBRACE
              then reindent_rest 4 (strip (dedent (str ''\<newline>      if x:\<newline>\<newline>        y = 1\<newline>      z = 2\<newline>'')))
              else strip (dedent (str ''\<newline>      if x:\<newline>\<newline>        y = 1\<newline>      z = 2\<newline>'')))"
    by (rule conjunct1)
  with h1 h2 b v show ?thesis by simp
qed

subsection \<open>The branch with an opening brace\<close>

text \<open>
  Claim C2, as the specification states it, has the indentation applied to every line
  of the block before the first line loses it. \<^verbatim>\<open>textwrap.indent\<close> passes over the lines
  made of whitespace only: the empty second line of the block below gets no spaces.
\<close>

theorem normalize_indent_brace_counterexample:
  "str ''    {f(s)}\<newline>'' ! (length (str ''    {f(s)}\<newline>'') - length (lstrip (str ''    {f(s)}\<newline>'')))
     = LBRACE
   \<and> splitlines_keepends (strip (dedent (str ''a\<newline>\<newline>b''))) = [str ''a\<newline>'', str ''\<newline>'', str ''b'']
   \<and> textwrap_indent (strip (dedent (str ''a\<newline>\<newline>b''))) (replicate 4 SPACE) = str ''    a\<newline>\<newline>    b''
   \<and> textwrap_indent (strip (dedent (str ''a\<newline>\<newline>b''))) (replicate 4 SPACE) \<noteq>
       concat (map (\<lambda>l. replicate 4 SPACE @ l) (splitlines_keepends (strip (dedent (str ''a\<newline>\<newline>b'')))))
   \<and> normalize_indent (str ''a\<newline>\<newline>b'') (Some [str ''    {f(s)}\<newline>'']) = Inr (str ''a\<newline>\<newline>    b'')"
  by (simp add: eval_defs replicate_4)

text \<open>
  Claim C2, amended. When the character of the caller's line at the computed
  indentation position \<open>n\<close> is \<^verbatim>\<open>{\<close>, \<open>normalize_indent\<close> first puts \<open>n\<close> spaces in front of
  every line of the dedented, stripped block that is not made of whitespace only, and
  then drops \<open>n\<close> leading characters of the text. For a block that is not empty these
  are the \<open>n\<close> spaces put in front of its first line, so only the first line changes.
\<close>

theorem normalize_indent_brace:
  assumes "n = length call_line - length (lstrip call_line)" and "n < length call_line"
    and "call_line ! n = LBRACE"
  shows "normalize_indent code (Some (call_line # rest)) =
           Inr (drop n (textwrap_indent (strip (dedent code)) (replicate n SPACE)))
    \<and> textwrap_indent (strip (dedent code)) (replicate n SPACE) =
          concat (map (indent_line n) (splitlines_keepends (strip (dedent code))))
    \<and> (strip (dedent code) \<noteq> [] \<longrightarrow>
         (\<exists>l ls. splitlines_keepends (strip (dedent code)) = l # ls \<and>
            textwrap_indent (strip (dedent code)) (replicate n SPACE) =
              replicate n SPACE @ l @ concat (map (indent_line n) ls) \<and>
            normalize_indent code (Some (call_line # rest)) =
              Inr (l @ concat (map (indent_line n) ls))))
    \<and> (strip (dedent code) = [] \<longrightarrow> normalize_indent code (Some (call_line # rest)) = Inr [])"
proof -
  define s where "s = strip (dedent code)"
  have 1: "normalize_indent code (Some (call_line # rest)) =
           Inr (drop n (textwrap_indent s (replicate n SPACE)))"
    using assms by (simp add: normalize_indent_def Let_def s_def)
  have 2: "textwrap_indent s (replicate n SPACE) =
          concat (map (indent_line n) (splitlines_keepends s))"
    by (rule textwrap_indent_lines)
  have 3: "\<exists>l ls. splitlines_keepends s = l # ls \<and>
            textwrap_indent s (replicate n SPACE) =
              replicate n SPACE @ l @ concat (map (indent_line n) ls) \<and>
            normalize_indent code (Some (call_line # rest)) =
              Inr (l @ concat (map (indent_line n) ls))" if ne: "s \<noteq> []"
  proof -
    from ne have sp: "\<not> isspace (hd s)" unfolding s_def by (rule strip_ends)
    from ne obtain l ls where sl: "splitlines_keepends s = l # ls"
      by (rule splitlines_keepends_first)
    have r: "reindent_rest n s = l @ concat (map (indent_line n) ls)"
      by (simp add: reindent_rest_def sl)
    have t: "textwrap_indent s (replicate n SPACE) =
        replicate n SPACE @ l @ concat (map (indent_line n) ls)"
      using indent_drop_first [OF ne sp, of n] r by simp
    from 1 t have "normalize_indent code (Some (call_line # rest)) =
        Inr (l @ concat (map (indent_line n) ls))" by simp
    with sl t show ?thesis by blast
  qed
  have 4: "normalize_indent code (Some (call_line # rest)) = Inr []" if "s = []"
    using 1 that by (simp add: textwrap_indent_def)
  from 1 2 3 4 show ?thesis unfolding s_def by blast
qed

theorem normalize_indent_brace_witness:
  "(4::nat) = length (str ''    {f(s)}\<newline>'') - length (lstrip (str ''    {f(s)}\<newline>''))
   \<and> 4 < length (str ''    {f(s)}\<newline>'')
   \<and> str ''    {f(s)}\<newline>'' ! 4 = LBRACE
   \<and> strip (dedent (str ''  a\<newline>\<newline>   b'')) \<noteq> []
   \<and> normalize_indent (str ''  a\<newline>\<newline>   b'') (Some [str ''    {f(s)}\<newline>''])
       = Inr (drop 4 (str ''    a\<newline>\<newline>     b''))"
proof -
  have h1: "(4::nat) = length (str ''    {f(s)}\<newline>'') - length (lstrip (str ''    {f(s)}\<newline>''))"
    by (simp add: eval_defs)
  have h2: "4 < length (str ''    {f(s)}\<newline>'')"
    by (simp add: str_def)
  have h3: "str ''    {f(s)}\<newline>'' ! 4 = LBRACE"
    by (simp add: str_def)
  have h4: "strip (dedent (str ''  a\<newline>\<newline>   b'')) \<noteq> []"
    by (simp add: eval_defs)
  have v: "textwrap_indent (strip (dedent (str ''  a\<newline>\<newline>   b''))) (replicate 4 SPACE)
      = str ''    a\<newline>\<newline>     b''"
    by (simp add: eval_defs replicate_4)
  from normalize_indent_brace [OF h1 h2 h3, of "str ''  a\<newline>\<newline>   b''" "[]"]
  have "normalize_indent (str ''  a\<newline>\<newline>   b'') (Some [str ''    {f(s)}\<newline>'']) =
           Inr (drop 4 (textwrap_indent (strip (dedent (str ''  a\<newline>\<newline>   b''))) (replicate 4 SPACE)))"
    by (rule conjunct1)
  with h1 h2 h3 h4 v show ?thesis by simp
qed

subsection \<open>The scenario \<^verbatim>\<open>def f()\<close>\<close>

text \<open>
  Claim C3, as the specification states it, expects four spaces in front of both
  lines. With a caller's line indented by four spaces the first line never gets them,
  and without a brace the second line keeps its four spaces only.
\<close>

theorem normalize_indent_def_f_counterexample:
  "length (str ''    x = normalize_indent(code)\<newline>'')
       - length (lstrip (str ''    x = normalize_indent(code)\<newline>'')) = 4
   \<and> normalize_indent (str ''def f():\<newline>    pass'') (Some [str ''    x = normalize_indent(code)\<newline>''])
       \<noteq> Inr (str ''    def f():\<newline>        pass'')
   \<and> length (str ''    {normalize_indent(code)}\<newline>'')
       - length (lstrip (str ''    {normalize_indent(code)}\<newline>'')) = 4
   \<and> normalize_indent (str ''def f():\<newline>    pass'') (Some [str ''    {normalize_indent(code)}\<newline>''])
       \<noteq> Inr (str ''    def f():\<newline>        pass'')"
  by (simp add: eval_defs replicate_4)

text \<open>
  Claim C3, amended. For the block \<^verbatim>\<open>"def f():\n    pass"\<close> and a caller's line indented
  by four columns, \<open>normalize_indent\<close> yields \<^verbatim>\<open>"def f():\n        pass"\<close> when the
  caller's line has \<^verbatim>\<open>{\<close> at column 4 (the second line is indented, the first is not),
  and the block unchanged, \<^verbatim>\<open>"def f():\n    pass"\<close>, otherwise.
\<close>

theorem normalize_indent_def_f:
  assumes "length call_line - length (lstrip call_line) = 4" and "4 < length call_line"
  shows "normalize_indent (str ''def f():\<newline>    pass'') (Some (call_line # rest)) =
     Inr (if call_line ! 4 = LBRACE then str ''def f():\<newline>        pass''
          else str ''def f():\<newline>    pass'')"
proof -
  have s: "strip (dedent (str ''def f():\<newline>    pass'')) = str ''def f():\<newline>    pass''"
    by (simp add: eval_defs)
  have r: "reindent_rest 4 (str ''def f():\<newline>    pass'') = str ''def f():\<newline>        pass''"
    by (simp add: eval_defs reindent_rest_def indent_line_def replicate_4)
  from assms(1) have n: "4 = length call_line - length (lstrip call_line)" by simp
  from normalize_indent_cases [OF n assms(2), of "str ''def f():\<newline>    pass''" rest]
  show ?thesis by (simp only: s r)
qed

theorem normalize_indent_def_f_witness:
  "length (str ''    {normalize_indent(code)}\<newline>'')
       - length (lstrip (str ''    {normalize_indent(code)}\<newline>'')) = 4
   \<and> 4 < length (str ''    {normalize_indent(code)}\<newline>'')
   \<and> normalize_indent (str ''def f():\<newline>    pass'') (Some [str ''    {normalize_indent(code)}\<newline>''])
       = Inr (str ''def f():\<newline>        pass'')"
proof -
  have h1: "length (str ''    {normalize_indent(code)}\<newline>'')
       - length (lstrip (str ''    {normalize_indent(code)}\<newline>'')) = 4"
    by (simp add: eval_defs)
  have h2: "4 < length (str ''    {normalize_indent(code)}\<newline>'')"
    by (simp add: str_def)
  have b: "str ''    {normalize_indent(code)}\<newline>'' ! 4 = LBRACE"
    by (simp add: str_def)
  from normalize_indent_def_f [OF h1 h2, of "[]"] h1 h2 b show ?thesis by simp
qed

subsection \<open>Column zero\<close>

text \<open>
  Claim C4, as the specification states it, has the input come back unchanged when it
  has no common leading whitespace and no blank line around it. A space at the end of
  the last line, or spaces on an empty line in the middle, are lost.
\<close>

theorem normalize_indent_round_trip_counterexample:
  "length (str ''x = f(s)\<newline>'') - length (lstrip (str ''x = f(s)\<newline>'')) = 0
   \<and> common_margin (split_nl (str ''a\<newline>  \<newline>b '')) = []
   \<and> has_content (hd (split_nl (str ''a\<newline>  \<newline>b '')))
   \<and> has_content (last (split_nl (str ''a\<newline>  \<newline>b '')))
   \<and> normalize_indent (str ''a\<newline>  \<newline>b '') (Some [str ''x = f(s)\<newline>'']) = Inr (str ''a\<newline>\<newline>b'')
   \<and> str ''a\<newline>\<newline>b'' \<noteq> str ''a\<newline>  \<newline>b ''"
  by (simp add: eval_defs common_margin_def has_content_def)

text \<open>
  Claim C4, amended. With a caller's line that is not empty and has indentation 0,
  \<open>normalize_indent\<close> returns the stripped, dedented text, whether or not the line starts
  with a brace. That text is the input itself when the input neither starts nor ends
  with a whitespace character and has no line made only of spaces and tabs.
\<close>

theorem normalize_indent_round_trip:
  assumes "call_line \<noteq> []" and "length call_line - length (lstrip call_line) = 0"
  shows "normalize_indent code (Some (call_line # rest)) = Inr (strip (dedent code))
    \<and> ((code = [] \<or> \<not> isspace (hd code) \<and> \<not> isspace (last code)) \<and>
        (\<forall>l\<in>set (split_nl code). l \<noteq> [] \<longrightarrow> has_content l)
        \<longrightarrow> normalize_indent code (Some (call_line # rest)) = Inr code)"
proof -
  from assms have n: "0 = length call_line - length (lstrip call_line)"
    and i: "0 < length call_line" by simp_all
  have 1: "normalize_indent code (Some (call_line # rest)) = Inr (strip (dedent code))"
    using normalize_indent_cases [OF n i, of code rest] by (simp add: reindent_rest_0)
  have 2: "strip (dedent code) = code"
    if "code = [] \<or> \<not> isspace (hd code) \<and> \<not> isspace (last code)"
      and "\<forall>l\<in>set (split_nl code). l \<noteq> [] \<longrightarrow> has_content l"
  proof (cases "code = []")
    case True
    then show ?thesis by (simp add: dedent_Nil)
  next
    case False
    with that have e: "\<not> isspace (hd code)" "\<not> isspace (last code)" by simp_all
    from False e(1) that(2) have "dedent code = code" by (rule dedent_id)
    with False e show ?thesis by (simp add: strip_id)
  qed
  from 1 2 show ?thesis by simp
qed

theorem normalize_indent_round_trip_witness:
  "str ''x = f(s)\<newline>'' \<noteq> []
   \<and> length (str ''x = f(s)\<newline>'') - length (lstrip (str ''x = f(s)\<newline>'')) = 0
   \<and> \<not> isspace (hd (str ''if x:\<newline>\<newline>    y = 1''))
   \<and> \<not> isspace (last (str ''if x:\<newline>\<newline>    y = 1''))
   \<and> list_all (\<lambda>l. l = [] \<or> has_content l) (split_nl (str ''if x:\<newline>\<newline>    y = 1''))
   \<and> normalize_indent (str ''if x:\<newline>\<newline>    y = 1'') (Some [str ''x = f(s)\<newline>''])
       = Inr (str ''if x:\<newline>\<newline>    y = 1'')"
proof -
  have h1: "str ''x = f(s)\<newline>'' \<noteq> []" by (simp add: str_def)
  have h2: "length (str ''x = f(s)\<newline>'') - length (lstrip (str ''x = f(s)\<newline>'')) = 0"
    by (simp add: eval_defs)
  have h3: "\<not> isspace (hd (str ''if x:\<newline>\<newline>    y = 1''))"
    and h4: "\<not> isspace (last (str ''if x:\<newline>\<newline>    y = 1''))"
    by (simp_all add: str_def isspace_def)
  have h5: "list_all (\<lambda>l. l = [] \<or> has_content l) (split_nl (str ''if x:\<newline>\<newline>    y = 1''))"
    by (simp add: str_def has_content_def is_blank_def)
  then have h5': "\<forall>l\<in>set (split_nl (str ''if x:\<newline>\<newline>    y = 1'')). l \<noteq> [] \<longrightarrow> has_content l"
    by (auto simp: list_all_iff)
  from normalize_indent_round_trip [OF h1 h2, of "str ''if x:\<newline>\<newline>    y = 1''" "[]"] h3 h4 h5'
  have "normalize_indent (str ''if x:\<newline>\<newline>    y = 1'') (Some [str ''x = f(s)\<newline>''])
       = Inr (str ''if x:\<newline>\<newline>    y = 1'')" by blast
  with h1 h2 h3 h4 h5 show ?thesis by simp
qed

subsection \<open>Reading the preamble\<close>

text \<open>
  Claim C6, as the specification states it, has the content of the file returned
  verbatim. \<^verbatim>\<open>read_text()\<close> reads in text mode: a file with the bytes \<^verbatim>\<open>a\r\nb\<close> is
  returned as \<^verbatim>\<open>a\nb\<close>, one character shorter than its content.
\<close>

theorem get_preamble_verbatim_counterexample:
  "latin1 [CHR ''a'', CHR 0x0D, CHR 0x0A, CHR ''b''] = Some [97, CR, LF, 98]
   \<and> get_preamble latin1
        (\<lambda>a. Dir True True [(''sourcegen'', Dir True True
           [(''preamble.txt'', File True [CHR ''a'', CHR 0x0D, CHR 0x0A, CHR ''b''])])])
        \<lparr>anchor = ''/'', parts = [''sourcegen'', ''_helpers.py'']\<rparr>
       = Inr [97, LF, 98]
   \<and> [97, LF, 98] \<noteq> [97, CR, LF, 98::nat]"
  by (simp add: get_preamble_def read_text_def parent_def joinpath_def latin1_def)

text \<open>
  Claim C6, amended. \<open>get_preamble\<close> takes no argument of its own; it resolves the fixed
  name \<^verbatim>\<open>preamble.txt\<close> in the directory of the module's file, reads that file fully
  and returns its decoded text with every \<^verbatim>\<open>\r\n\<close> and every \<^verbatim>\<open>\r\<close> turned into \<^verbatim>\<open>\n\<close>.
  A text with no carriage return is returned verbatim.
\<close>

theorem get_preamble_reads_file:
  assumes "lookup (fs (anchor (joinpath (parent file) ''preamble.txt'')))
             (parts (joinpath (parent file) ''preamble.txt'')) = Inr (File True bytes)"
    and "decode bytes = Some decoded"
  shows "joinpath (parent file) ''preamble.txt'' =
           \<lparr>anchor = anchor file, parts = butlast (parts file) @ [''preamble.txt'']\<rparr>
    \<and> get_preamble decode fs file = Inr (universal_newlines decoded)
    \<and> (CR \<notin> set decoded \<longrightarrow> get_preamble decode fs file = Inr decoded)"
proof -
  have "get_preamble decode fs file = Inr (universal_newlines decoded)"
    using assms by (simp add: get_preamble_def read_text_def)
  then show ?thesis by (simp add: preamble_path universal_newlines_id)
qed

theorem get_preamble_reads_file_witness:
  "lookup ((\<lambda>a. Dir True True [(''sourcegen'', Dir True True [(''preamble.txt'', File True ''// header\<newline>'')])]) (anchor (joinpath (parent \<lparr>anchor = ''/'', parts = [''sourcegen'', ''_helpers.py'']\<rparr>) ''preamble.txt'')))
     (parts (joinpath (parent \<lparr>anchor = ''/'', parts = [''sourcegen'', ''_helpers.py'']\<rparr>) ''preamble.txt'')) = Inr (File True ''// header\<newline>'')
   \<and> latin1 ''// header\<newline>'' = Some (str ''// header\<newline>'')
   \<and> CR \<notin> set (str ''// header\<newline>'')
   \<and> get_preamble latin1 (\<lambda>a. Dir True True [(''sourcegen'', Dir True True [(''preamble.txt'', File True ''// header\<newline>'')])]) \<lparr>anchor = ''/'', parts = [''sourcegen'', ''_helpers.py'']\<rparr> = Inr (str ''// header\<newline>'')"
proof -
  let ?fs = "(\<lambda>a. Dir True True [(''sourcegen'', Dir True True [(''preamble.txt'', File True ''// header\<newline>'')])])"
  let ?file = "\<lparr>anchor = ''/'', parts = [''sourcegen'', ''_helpers.py'']\<rparr>"
  have h1: "lookup (?fs (anchor (joinpath (parent ?file) ''preamble.txt'')))
     (parts (joinpath (parent ?file) ''preamble.txt'')) = Inr (File True ''// header\<newline>'')"
    by (simp add: parent_def joinpath_def)
  have h2: "latin1 ''// header\<newline>'' = Some (str ''// header\<newline>'')"
    by (simp add: latin1_def str_def)
  have h3: "CR \<notin> set (str ''// header\<newline>'')"
    by (simp add: str_def)
  from get_preamble_reads_file [of ?fs ?file "''// header\<newline>''" latin1
      "str ''// header\<newline>''"] h1 h2 h3
  have "get_preamble latin1 ?fs ?file = Inr (str ''// header\<newline>'')" by blast
  with h1 h2 h3 show ?thesis by blast
qed

subsection \<open>A missing preamble\<close>




subsection \<open>No shared state\<close>



end
